theory Spec2Isabelle
  imports Main
begin

unbundle bit_operations_syntax

section \<open>The satisfiability engine as the propagator consumes it\<close>

text \<open>
  The engine is Minisat, which the source includes as \<^verbatim>\<open>core/Solver.cc\<close> and which is
  not among the sources. Its literals, its clause database and its answers are modelled
  from the spec, each definition saying so. Engine variables are the numbers
  \<open>0, 1, 2, \<dots>\<close> in the order of their allocation (\<^verbatim>\<open>Minisat::Var\<close> is an \<^verbatim>\<open>int\<close> that
  is never negative here).
\<close>

text \<open>Modelled from the spec: the literal type \<^verbatim>\<open>Minisat::Lit\<close> is missing. The spec
  has a literal as a reference to one engine variable plus a polarity bit; the engine
  stores both in one integer, \<open>2 * var + sign\<close>.\<close>

datatype lit = Lit (x: int)

text \<open>Modelled from the spec: \<^verbatim>\<open>Minisat::mkLit\<close> is missing. It builds the literal of
  an engine variable with a polarity bit; \<open>Literal\<close> below passes the negation flag of the
  expression as that bit, so a set bit is the negated literal.\<close>

definition mkLit :: "nat \<Rightarrow> bool \<Rightarrow> lit" where
  "mkLit v s = Lit (int v + int v + (if s then 1 else 0))"

text \<open>Modelled from the spec: the operator \<^verbatim>\<open>~\<close> of \<^verbatim>\<open>Minisat::Lit\<close> is missing. The
  literal of a variable and the literal of its negation are complementary: the operator
  flips the polarity bit.\<close>

definition neg :: "lit \<Rightarrow> lit" where
  "neg p = Lit (x p XOR 1)"

text \<open>Modelled from the spec: \<^verbatim>\<open>Minisat::sign\<close> is missing; the polarity bit of a
  literal.\<close>

definition sign :: "lit \<Rightarrow> bool" where
  "sign p = odd (x p)"

text \<open>Modelled from the spec: \<^verbatim>\<open>Minisat::var\<close> is missing; the engine variable a
  literal refers to.\<close>

definition var :: "lit \<Rightarrow> int" where
  "var p = x p div 2"

text \<open>Modelled from the spec: \<^verbatim>\<open>Minisat::lit_Error\<close> is missing; the error marker
  that \<open>Literal\<close> returns for an expression that is not boolean, the literal of no
  variable.\<close>

definition lit_Error :: lit where
  "lit_Error = Lit (- 1)"

text \<open>Modelled from the spec: the class \<^verbatim>\<open>Minisat::Solver\<close> is missing. The spec gives
  what the propagator consumes: fresh variables, a permanent, append-only clause database,
  and solving under a list of assumption literals. The record keeps the number of
  variables allocated, the clauses in the order they were added, and the assumption list
  of the latest query.\<close>

record minisat =
  nVars :: nat
  clauses :: "lit list list"
  assumptions :: "lit list"

text \<open>Modelled from the spec: the constructor of \<^verbatim>\<open>Minisat::Solver\<close> is missing; an
  engine with no variable and no clause.\<close>

definition minisat_new :: minisat where
  "minisat_new = \<lparr>nVars = 0, clauses = [], assumptions = []\<rparr>"

text \<open>Modelled from the spec: \<^verbatim>\<open>Minisat::Solver::newVar\<close> is missing; it allocates a
  fresh variable and returns it.\<close>

definition newVar :: "minisat \<Rightarrow> nat \<times> minisat" where
  "newVar m = (nVars m, m\<lparr>nVars := Suc (nVars m)\<rparr>)"

text \<open>Modelled from the spec: \<^verbatim>\<open>Minisat::Solver::addClause_\<close> and the
  \<^verbatim>\<open>addClause\<close> overloads over it are missing. A clause is appended once to the
  database and never retracted.\<close>

definition addClause :: "lit list \<Rightarrow> minisat \<Rightarrow> minisat" where
  "addClause ps m = m\<lparr>clauses := clauses m @ [ps]\<rparr>"

text \<open>Modelled from the spec: the search of the engine is missing and out of the spec's
  scope; only its answer is consumed. The answer is computed here by trying every
  assignment of truth values to the \<open>n\<close> variables allocated.\<close>

fun assignments_of :: "nat \<Rightarrow> bool list list" where
  "assignments_of 0 = [[]]"
| "assignments_of (Suc n) = concat (map (\<lambda>a. [False # a, True # a]) (assignments_of n))"

text \<open>Modelled from the spec: a literal holds under an assignment when its variable is
  allocated and has the value the polarity bit asks for, true for a clear bit and false
  for a set one.\<close>

definition lit_holds :: "bool list \<Rightarrow> lit \<Rightarrow> bool" where
  "lit_holds a p = (0 \<le> var p \<and> nat (var p) < length a \<and> (a ! nat (var p)) = (\<not> sign p))"

text \<open>Modelled from the spec: a clause is a disjunction of literals, satisfied if at
  least one of them holds.\<close>

definition clause_holds :: "bool list \<Rightarrow> lit list \<Rightarrow> bool" where
  "clause_holds a c = (\<exists>p \<in> set c. lit_holds a p)"

text \<open>Modelled from the spec: the answer of the engine, satisfiable or unsatisfiable:
  whether some assignment makes every clause of the database and every assumption hold.\<close>

definition satisfiable_under :: "minisat \<Rightarrow> lit list \<Rightarrow> bool" where
  "satisfiable_under m assumps =
     (\<exists>a \<in> set (assignments_of (nVars m)).
        (\<forall>c \<in> set (clauses m). clause_holds a c) \<and> (\<forall>p \<in> set assumps. lit_holds a p))"

text \<open>Modelled from the spec: \<^verbatim>\<open>Minisat::Solver::solve\<close> is missing; it solves under
  the given assumption literals and reports the answer. The model records the list it was
  given.\<close>

definition solve :: "minisat \<Rightarrow> lit list \<Rightarrow> bool \<times> minisat" where
  "solve m assumps = (satisfiable_under m assumps, m\<lparr>assumptions := assumps\<rparr>)"

section \<open>The host solver as the propagator consumes it\<close>

text \<open>
  Expressions and variables of the host are objects handled by pointer
  (\<^verbatim>\<open>IntExpr*\<close>, \<^verbatim>\<open>IntVar*\<close>, the second a subclass of the first); the model
  keeps their identity as a number. What the propagator asks of the host is taken as a
  parameter: \<^verbatim>\<open>Solver::IsBooleanVar\<close>, which answers with the underlying variable and a
  negation flag or refuses, and the state of a variable, unbound or bound to a value
  (\<^verbatim>\<open>IntVar::Bound\<close>, \<^verbatim>\<open>IntVar::Value\<close>).
\<close>

type_synonym int_expr = nat

record host =
  IsBooleanVar :: "int_expr \<Rightarrow> (int_expr \<times> bool) option"
  var_value :: "int_expr \<Rightarrow> int option"

definition Bound :: "host \<Rightarrow> int_expr \<Rightarrow> bool" where
  "Bound h v = (var_value h v \<noteq> None)"

text \<open>Modelled from the spec: the class \<^verbatim>\<open>NumericalRev<int>\<close> of the host is missing.
  The spec has the reversible counter as an integer whose writes are logged, so that
  backtracking past a write restores the prior value. The record keeps the current value
  and the log of prior values, latest first. The counter is never negative and counts the
  literals on the trail; the model takes a natural number.\<close>

record numerical_rev =
  rev_value :: nat
  rev_log :: "nat list"

text \<open>Modelled from the spec: \<^verbatim>\<open>NumericalRev::Incr\<close> is missing; it advances the
  counter by one, the write being logged.\<close>

definition Incr :: "numerical_rev \<Rightarrow> numerical_rev" where
  "Incr r = \<lparr>rev_value = rev_value r + 1, rev_log = rev_value r # rev_log r\<rparr>"

text \<open>Modelled from the spec: the backtracking of the host is missing. Backtracking
  past the latest write restores the value logged by that write; with nothing logged
  there is nothing to undo.\<close>

definition Restore :: "numerical_rev \<Rightarrow> numerical_rev" where
  "Restore r = (case rev_log r of [] \<Rightarrow> r | v # vs \<Rightarrow> \<lparr>rev_value = v, rev_log = vs\<rparr>)"

section \<open>The propagator\<close>

text \<open>
  The members of \<^verbatim>\<open>SatPropagator\<close> keep their names, the final underscore written
  \<open>_m\<close>.
\<close>

record sat_propagator =
  minisat_m :: minisat
  vars_m :: "int_expr list"
  indices_m :: "int_expr \<rightharpoonup> nat"
  bound_literals_m :: "lit list"
  num_bound_literals_m :: numerical_rev

text \<open>
  The constructor leaves every container empty and sets the counter to \<open>0\<close>;
  \<^verbatim>\<open>MakeSatPropagator\<close> returns the object it constructs.
\<close>

definition MakeSatPropagator :: sat_propagator where
  "MakeSatPropagator =
     \<lparr>minisat_m = minisat_new, vars_m = [], indices_m = Map.empty, bound_literals_m = [],
      num_bound_literals_m = \<lparr>rev_value = 0, rev_log = []\<rparr>\<rparr>"

definition Check :: "host \<Rightarrow> int_expr \<Rightarrow> bool" where
  "Check h expr = (IsBooleanVar h expr \<noteq> None)"

fun Check_vars :: "host \<Rightarrow> int_expr list \<Rightarrow> bool" where
  "Check_vars h [] = True"
| "Check_vars h (v # vars) = (if \<not> Check h v then False else Check_vars h vars)"

definition Literal :: "host \<Rightarrow> int_expr \<Rightarrow> sat_propagator \<Rightarrow> lit \<times> sat_propagator" where
  "Literal h expr sat =
     (case IsBooleanVar h expr of
        None \<Rightarrow> (lit_Error, sat)
      | Some (expr_var, expr_negated) \<Rightarrow>
          (case indices_m sat expr_var of
             Some i \<Rightarrow> (mkLit i expr_negated, sat)
           | None \<Rightarrow>
               (let (v, m) = newVar (minisat_m sat)
                in (mkLit v expr_negated,
                    sat\<lparr>minisat_m := m, vars_m := vars_m sat @ [expr_var],
                        indices_m := (indices_m sat)(expr_var \<mapsto> v)\<rparr>))))"

text \<open>
  The four \<^verbatim>\<open>AddClause\<close> overloads and \<^verbatim>\<open>AddEmptyClause\<close> hand their literals to
  the engine. Each returns the engine's answer, which no caller in the source reads; the
  model keeps the state only.
\<close>

definition AddClause :: "lit list \<Rightarrow> sat_propagator \<Rightarrow> sat_propagator" where
  "AddClause ps sat = sat\<lparr>minisat_m := addClause ps (minisat_m sat)\<rparr>"

definition AddEmptyClause :: "sat_propagator \<Rightarrow> sat_propagator" where
  "AddEmptyClause sat = sat\<lparr>minisat_m := addClause [] (minisat_m sat)\<rparr>"

definition AddClause1 :: "lit \<Rightarrow> sat_propagator \<Rightarrow> sat_propagator" where
  "AddClause1 p sat = sat\<lparr>minisat_m := addClause [p] (minisat_m sat)\<rparr>"

definition AddClause2 :: "lit \<Rightarrow> lit \<Rightarrow> sat_propagator \<Rightarrow> sat_propagator" where
  "AddClause2 p q sat = sat\<lparr>minisat_m := addClause [p, q] (minisat_m sat)\<rparr>"

definition AddClause3 :: "lit \<Rightarrow> lit \<Rightarrow> lit \<Rightarrow> sat_propagator \<Rightarrow> sat_propagator" where
  "AddClause3 p q r sat = sat\<lparr>minisat_m := addClause [p, q, r] (minisat_m sat)\<rparr>"

section \<open>The encoders\<close>

text \<open>
  An encoder is declared \<^verbatim>\<open>bool\<close>. A path that reaches a \<^verbatim>\<open>return\<close> statement
  yields \<open>Return b\<close>; a path that reaches the closing brace without one yields
  \<open>Falls_off_end\<close>, for which the language defines no value.
\<close>

datatype ret = Return bool | Falls_off_end

definition AddBoolEq :: "host \<Rightarrow> sat_propagator \<Rightarrow> int_expr \<Rightarrow> int_expr \<Rightarrow> ret \<times> sat_propagator" where
  "AddBoolEq h sat left right =
     (if \<not> Check h left \<or> \<not> Check h right then (Return False, sat)
      else
        (let (left_lit, s1) = Literal h left sat;
             (right_lit, s2) = Literal h right s1;
             s3 = AddClause2 (neg left_lit) right_lit s2;
             s4 = AddClause2 left_lit (neg right_lit) s3
         in (Return True, s4)))"

definition AddBoolLe :: "host \<Rightarrow> sat_propagator \<Rightarrow> int_expr \<Rightarrow> int_expr \<Rightarrow> ret \<times> sat_propagator" where
  "AddBoolLe h sat left right =
     (if \<not> Check h left \<or> \<not> Check h right then (Return False, sat)
      else
        (let (left_lit, s1) = Literal h left sat;
             (right_lit, s2) = Literal h right s1;
             s3 = AddClause2 (neg left_lit) right_lit s2
         in (Return True, s3)))"

definition AddBoolNot :: "host \<Rightarrow> sat_propagator \<Rightarrow> int_expr \<Rightarrow> int_expr \<Rightarrow> ret \<times> sat_propagator" where
  "AddBoolNot h sat left right =
     (if \<not> Check h left \<or> \<not> Check h right then (Return False, sat)
      else
        (let (left_lit, s1) = Literal h left sat;
             (right_lit, s2) = Literal h right s1;
             s3 = AddClause2 (neg left_lit) (neg right_lit) s2;
             s4 = AddClause2 left_lit right_lit s3
         in (Return True, s4)))"

text \<open>
  \<^verbatim>\<open>AddBoolAndArrayEqVar\<close> opens with an unconditional \<^verbatim>\<open>return false;\<close>. The
  statements after it are never executed; they are kept apart below, as
  \<open>AddBoolAndArrayEqVar_after_return\<close>, with their two loops.
\<close>

definition AddBoolAndArrayEqVar ::
    "host \<Rightarrow> sat_propagator \<Rightarrow> int_expr list \<Rightarrow> int_expr \<Rightarrow> ret \<times> sat_propagator" where
  "AddBoolAndArrayEqVar h sat vars target = (Return False, sat)"

text \<open>
  The loops that fill a vector with the literals of a list of variables, in order, each
  literal fetched by \<open>Literal\<close>: \<open>negated_Literals\<close> stores the complements
  (\<^verbatim>\<open>lits[i] = ~sat->Literal(vars[i])\<close>), \<open>Literals\<close> further below the literals
  themselves. \<open>AddClause_each\<close> is the second loop after the early return, which adds
  \<^verbatim>\<open>(~target_lit, ~lits[i])\<close> for each \<open>i\<close>.
\<close>

fun negated_Literals :: "host \<Rightarrow> int_expr list \<Rightarrow> sat_propagator \<Rightarrow> lit list \<times> sat_propagator" where
  "negated_Literals h [] sat = ([], sat)"
| "negated_Literals h (v # vars) sat =
     (let (l, s1) = Literal h v sat;
          (ls, s2) = negated_Literals h vars s1
      in (neg l # ls, s2))"

fun AddClause_each :: "lit \<Rightarrow> lit list \<Rightarrow> sat_propagator \<Rightarrow> sat_propagator" where
  "AddClause_each target_lit [] sat = sat"
| "AddClause_each target_lit (l # lits) sat =
     AddClause_each target_lit lits (AddClause2 (neg target_lit) (neg l) sat)"

definition AddBoolAndArrayEqVar_after_return ::
    "host \<Rightarrow> sat_propagator \<Rightarrow> int_expr list \<Rightarrow> int_expr \<Rightarrow> ret \<times> sat_propagator" where
  "AddBoolAndArrayEqVar_after_return h sat vars target =
     (if \<not> Check_vars h vars \<or> \<not> Check h target then (Return False, sat)
      else
        (let (target_lit, s1) = Literal h target sat;
             (lits, s2) = negated_Literals h vars s1;
             s3 = AddClause (lits @ [target_lit]) s2;
             s4 = AddClause_each target_lit lits s3
         in (Falls_off_end, s4)))"

definition AddBoolAndEqVar ::
    "host \<Rightarrow> sat_propagator \<Rightarrow> int_expr \<Rightarrow> int_expr \<Rightarrow> int_expr \<Rightarrow> ret \<times> sat_propagator" where
  "AddBoolAndEqVar h sat left right target =
     (if \<not> Check h left \<or> \<not> Check h right \<or> \<not> Check h target then (Return False, sat)
      else
        (let (left_lit, s1) = Literal h left sat;
             (right_lit, s2) = Literal h right s1;
             (target_lit, s3) = Literal h target s2;
             s4 = AddClause3 (neg left_lit) (neg right_lit) target_lit s3;
             s5 = AddClause2 left_lit (neg target_lit) s4;
             s6 = AddClause2 right_lit (neg target_lit) s5
         in (Falls_off_end, s6)))"

fun Literals :: "host \<Rightarrow> int_expr list \<Rightarrow> sat_propagator \<Rightarrow> lit list \<times> sat_propagator" where
  "Literals h [] sat = ([], sat)"
| "Literals h (v # vars) sat =
     (let (l, s1) = Literal h v sat;
          (ls, s2) = Literals h vars s1
      in (l # ls, s2))"

definition AddBoolOrArrayEqualTrue ::
    "host \<Rightarrow> sat_propagator \<Rightarrow> int_expr list \<Rightarrow> ret \<times> sat_propagator" where
  "AddBoolOrArrayEqualTrue h sat vars =
     (if \<not> Check_vars h vars then (Return False, sat)
      else
        (let (lits, s1) = Literals h vars sat;
             s2 = AddClause lits s1
         in (Return False, s2)))"

definition AddBoolAndArrayEqualFalse ::
    "host \<Rightarrow> sat_propagator \<Rightarrow> int_expr list \<Rightarrow> ret \<times> sat_propagator" where
  "AddBoolAndArrayEqualFalse h sat vars =
     (if \<not> Check_vars h vars then (Return False, sat)
      else
        (let (lits, s1) = negated_Literals h vars sat;
             s2 = AddClause lits s1
         in (Return False, s2)))"

section \<open>The incremental checker and the lifecycle\<close>

text \<open>
  \<^verbatim>\<open>std::vector::resize\<close>: a longer vector is cut, a shorter one is filled with
  value-initialised literals, whose integer is \<open>0\<close>. No state that a history reaches
  from a new propagator has the counter beyond the length of the vector, so the fill
  never happens there.
\<close>

definition resize :: "nat \<Rightarrow> lit list \<Rightarrow> lit list" where
  "resize n ls = take n ls @ replicate (n - length ls) (Lit 0)"

text \<open>
  \<^verbatim>\<open>vars_[index]\<close> past the end of the vector and \<^verbatim>\<open>Value()\<close> of a variable that
  is not bound have no defined result; the model stops there with a \<open>fault\<close>.
  \<^verbatim>\<open>solver()->Fail()\<close> leaves the call at once; the model returns the signal \<open>Fail\<close>
  with the state as it is at that moment.
\<close>

datatype fault = Index_out_of_range | Value_of_unbound

datatype signal = Proceed | Fail

definition VariableBound :: "host \<Rightarrow> nat \<Rightarrow> sat_propagator \<Rightarrow> fault + (signal \<times> sat_propagator)" where
  "VariableBound h index sat =
     (if length (vars_m sat) \<le> index then Inl Index_out_of_range
      else
        (case var_value h (vars_m sat ! index) of
           None \<Rightarrow> Inl Value_of_unbound
         | Some val \<Rightarrow>
             (let lit = mkLit index (val \<noteq> 0);
                  resized = resize (rev_value (num_bound_literals_m sat)) (bound_literals_m sat);
                  counter = Incr (num_bound_literals_m sat);
                  pushed = resized @ [lit];
                  (answer, m) = solve (minisat_m sat) pushed;
                  sat' = sat\<lparr>minisat_m := m, bound_literals_m := pushed,
                             num_bound_literals_m := counter\<rparr>
              in Inr (if \<not> answer then Fail else Proceed, sat'))))"

text \<open>
  \<^verbatim>\<open>hash_map::operator[]\<close>: a key that is absent is inserted with the value \<open>0\<close>.
\<close>

definition subscript :: "(int_expr \<rightharpoonup> nat) \<Rightarrow> int_expr \<Rightarrow> nat \<times> (int_expr \<rightharpoonup> nat)" where
  "subscript m k = (case m k of Some i \<Rightarrow> (i, m) | None \<Rightarrow> (0, m(k \<mapsto> 0)))"

text \<open>
  \<^verbatim>\<open>Post\<close> creates one demon per entry of \<^verbatim>\<open>vars_\<close> and attaches it to that
  variable; the model returns the subscriptions, each the variable and the index its demon
  will pass to \<^verbatim>\<open>VariableBound\<close>.
\<close>

fun Post_loop :: "int_expr list \<Rightarrow> sat_propagator \<Rightarrow> (int_expr \<times> nat) list \<times> sat_propagator" where
  "Post_loop [] sat = ([], sat)"
| "Post_loop (v # rest) sat =
     (let (i, ind) = subscript (indices_m sat) v;
          (ds, s2) = Post_loop rest (sat\<lparr>indices_m := ind\<rparr>)
      in ((v, i) # ds, s2))"

definition Post :: "sat_propagator \<Rightarrow> (int_expr \<times> nat) list \<times> sat_propagator" where
  "Post sat = Post_loop (vars_m sat) sat"

fun InitialPropagate_loop ::
    "host \<Rightarrow> int_expr list \<Rightarrow> sat_propagator \<Rightarrow> fault + (signal \<times> sat_propagator)" where
  "InitialPropagate_loop h [] sat = Inr (Proceed, sat)"
| "InitialPropagate_loop h (v # rest) sat =
     (if Bound h v then
        (let (i, ind) = subscript (indices_m sat) v
         in (case VariableBound h i (sat\<lparr>indices_m := ind\<rparr>) of
               Inl f \<Rightarrow> Inl f
             | Inr (Fail, s1) \<Rightarrow> Inr (Fail, s1)
             | Inr (Proceed, s1) \<Rightarrow> InitialPropagate_loop h rest s1))
      else InitialPropagate_loop h rest sat)"

definition InitialPropagate :: "host \<Rightarrow> sat_propagator \<Rightarrow> fault + (signal \<times> sat_propagator)" where
  "InitialPropagate h sat = InitialPropagate_loop h (vars_m sat) sat"

section \<open>Histories of a propagator\<close>

text \<open>
  Everything that can happen to a propagator during its life: the encoder calls and
  \<^verbatim>\<open>Literal\<close> of model construction, \<^verbatim>\<open>Post\<close>, \<^verbatim>\<open>InitialPropagate\<close>, the bound
  callback, and the host backtracking past the latest write of the reversible counter.
  A history is a list of such events, each with the state of the host at that moment.
\<close>

datatype call =
    Call_Literal int_expr
  | Call_AddBoolEq int_expr int_expr
  | Call_AddBoolLe int_expr int_expr
  | Call_AddBoolNot int_expr int_expr
  | Call_AddBoolAndArrayEqVar "int_expr list" int_expr
  | Call_AddBoolAndEqVar int_expr int_expr int_expr
  | Call_AddBoolOrArrayEqualTrue "int_expr list"
  | Call_AddBoolAndArrayEqualFalse "int_expr list"
  | Call_Post
  | Call_InitialPropagate
  | Call_VariableBound nat
  | Host_backtrack

fun exec :: "host \<Rightarrow> call \<Rightarrow> sat_propagator \<Rightarrow> fault + sat_propagator" where
  "exec h (Call_Literal e) sat = Inr (snd (Literal h e sat))"
| "exec h (Call_AddBoolEq l r) sat = Inr (snd (AddBoolEq h sat l r))"
| "exec h (Call_AddBoolLe l r) sat = Inr (snd (AddBoolLe h sat l r))"
| "exec h (Call_AddBoolNot l r) sat = Inr (snd (AddBoolNot h sat l r))"
| "exec h (Call_AddBoolAndArrayEqVar vs t) sat = Inr (snd (AddBoolAndArrayEqVar h sat vs t))"
| "exec h (Call_AddBoolAndEqVar l r t) sat = Inr (snd (AddBoolAndEqVar h sat l r t))"
| "exec h (Call_AddBoolOrArrayEqualTrue vs) sat = Inr (snd (AddBoolOrArrayEqualTrue h sat vs))"
| "exec h (Call_AddBoolAndArrayEqualFalse vs) sat = Inr (snd (AddBoolAndArrayEqualFalse h sat vs))"
| "exec h Call_Post sat = Inr (snd (Post sat))"
| "exec h Call_InitialPropagate sat = map_sum id snd (InitialPropagate h sat)"
| "exec h (Call_VariableBound i) sat = map_sum id snd (VariableBound h i sat)"
| "exec h Host_backtrack sat =
     Inr (sat\<lparr>num_bound_literals_m := Restore (num_bound_literals_m sat)\<rparr>)"

fun run :: "(host \<times> call) list \<Rightarrow> sat_propagator \<Rightarrow> fault + sat_propagator" where
  "run [] sat = Inr sat"
| "run ((h, c) # rest) sat = (case exec h c sat of Inl f \<Rightarrow> Inl f | Inr s1 \<Rightarrow> run rest s1)"

section \<open>Auxiliary notions\<close>

text \<open>
  A later state extends an earlier one when the registry has every earlier entry with the
  same index, the clause database starts with the earlier database, and no engine
  variable has gone.
\<close>

definition extends :: "sat_propagator \<Rightarrow> sat_propagator \<Rightarrow> bool" where
  "extends s s' =
     (indices_m s \<subseteq>\<^sub>m indices_m s' \<and>
      (\<exists>cs. clauses (minisat_m s') = clauses (minisat_m s) @ cs) \<and>
      nVars (minisat_m s) \<le> nVars (minisat_m s'))"

text \<open>
  Two states have the same trail when the vector of bound literals and the reversible
  counter agree; a state grows into another when the second extends it with the same trail.
  These describe what model construction may do to a propagator.
\<close>

definition same_trail :: "sat_propagator \<Rightarrow> sat_propagator \<Rightarrow> bool" where
  "same_trail s s' =
     (bound_literals_m s' = bound_literals_m s \<and> num_bound_literals_m s' = num_bound_literals_m s)"

definition grows :: "sat_propagator \<Rightarrow> sat_propagator \<Rightarrow> bool" where
  "grows s s' = (extends s s' \<and> same_trail s s')"

text \<open>
  The invariant of the trail: the counter and the values logged before it never increase
  towards the past, and the counter does not exceed the number of literals stored.
\<close>

definition trail_ok :: "sat_propagator \<Rightarrow> bool" where
  "trail_ok s =
     (sorted_wrt (\<ge>) (rev_value (num_bound_literals_m s) # rev_log (num_bound_literals_m s)) \<and>
      rev_value (num_bound_literals_m s) \<le> length (bound_literals_m s))"

text \<open>
  A host for concrete runs: the expressions \<open>0\<close> to \<open>9\<close> are boolean variables, the
  expressions \<open>10\<close> to \<open>19\<close> are their negated views, every other expression is not
  boolean; variable \<open>1\<close> is bound to \<open>1\<close>, variable \<open>2\<close> is bound to \<open>0\<close>, the others
  are not bound.
\<close>

definition demo_host :: host where
  "demo_host =
     \<lparr>IsBooleanVar =
        (\<lambda>e. if e < 10 then Some (e, False) else if e < 20 then Some (e - 10, True) else None),
      var_value = (\<lambda>v. if v = 1 then Some 1 else if v = 2 then Some 0 else None)\<rparr>"

section \<open>Literals\<close>

lemma neg_mkLit: "neg (mkLit v b) = mkLit v (\<not> b)"
  by (simp add: neg_def mkLit_def xor_one_eq)

lemma neg_neg: "neg (neg l) = l"
  by (cases l) (simp add: neg_def bit.xor_self xor.assoc)

lemma mkLit_eq_iff: "mkLit v b = mkLit w c \<longleftrightarrow> v = w \<and> b = c"
  by (auto simp: mkLit_def) presburger+

lemma var_mkLit: "var (mkLit v b) = int v"
  by (simp add: var_def mkLit_def)

lemma sign_mkLit: "sign (mkLit v b) = b"
  by (simp add: sign_def mkLit_def)

section \<open>The registry\<close>

lemma extends_refl: "extends s s"
  by (simp add: extends_def)

lemma extends_trans: "extends s s1 \<Longrightarrow> extends s1 s2 \<Longrightarrow> extends s s2"
  by (auto simp: extends_def intro: map_le_trans)

lemma Literal_extends: "Literal h e s = (l, s') \<Longrightarrow> extends s s'"
  by (auto simp: Literal_def extends_def newVar_def map_le_def split: option.splits prod.splits)

lemma Literal_valid:
  assumes "IsBooleanVar h e = Some (v, n)" and "Literal h e s = (l, s')"
  shows "\<exists>i. indices_m s' v = Some i \<and> l = mkLit i n"
  using assms by (auto simp: Literal_def newVar_def split: option.splits prod.splits)

lemma Literal_known:
  assumes "IsBooleanVar h e = Some (v, n)" and "indices_m s v = Some i"
  shows "Literal h e s = (mkLit i n, s)"
  using assms by (simp add: Literal_def)

lemma Literal_clauses:
  "Literal h e s = (l, s') \<Longrightarrow> clauses (minisat_m s') = clauses (minisat_m s)"
  by (auto simp: Literal_def newVar_def split: option.splits prod.splits)

lemma Literal_nVars:
  "Literal h e s = (l, s') \<Longrightarrow> nVars (minisat_m s') \<le> Suc (nVars (minisat_m s))"
  by (auto simp: Literal_def newVar_def split: option.splits prod.splits)

lemma Literal_trail:
  "Literal h e s = (l, s') \<Longrightarrow>
     bound_literals_m s' = bound_literals_m s \<and> num_bound_literals_m s' = num_bound_literals_m s"
  by (auto simp: Literal_def newVar_def split: option.splits prod.splits)

lemma AddClause2_clauses:
  "clauses (minisat_m (AddClause2 p q s)) = clauses (minisat_m s) @ [[p, q]]"
  by (simp add: AddClause2_def addClause_def)

lemma AddClause2_indices: "indices_m (AddClause2 p q s) = indices_m s"
  by (simp add: AddClause2_def)

lemma two_Literals:
  assumes l: "IsBooleanVar h left = Some (lv, ln)" and r: "IsBooleanVar h right = Some (rv, rn)"
    and a: "Literal h left sat = (L, s1)" and b: "Literal h right s1 = (R, s2)"
  shows "\<exists>i j. indices_m s2 lv = Some i \<and> indices_m s2 rv = Some j \<and> L = mkLit i ln \<and> R = mkLit j rn
     \<and> clauses (minisat_m s2) = clauses (minisat_m sat)"
proof -
  from Literal_valid [OF l a] obtain i where i: "indices_m s1 lv = Some i" "L = mkLit i ln"
    by blast
  from Literal_valid [OF r b] obtain j where j: "indices_m s2 rv = Some j" "R = mkLit j rn"
    by blast
  from Literal_extends [OF b] have "indices_m s1 \<subseteq>\<^sub>m indices_m s2"
    by (simp add: extends_def)
  with i have "indices_m s2 lv = Some i"
    by (metis domI map_le_def)
  moreover have "clauses (minisat_m s2) = clauses (minisat_m sat)"
    using Literal_clauses [OF a] Literal_clauses [OF b] by simp
  ultimately show ?thesis using i j by blast
qed

section \<open>Model construction only grows the state\<close>

lemma grows_refl: "grows s s"
  by (simp add: grows_def same_trail_def extends_refl)

lemma grows_trans: "grows s s1 \<Longrightarrow> grows s1 s2 \<Longrightarrow> grows s s2"
  by (auto simp: grows_def same_trail_def intro: extends_trans)

lemma grows_extends: "grows s s' \<Longrightarrow> extends s s'"
  by (simp add: grows_def)

lemma grows_trail_ok: "grows s s' \<Longrightarrow> trail_ok s \<Longrightarrow> trail_ok s'"
  by (simp add: grows_def same_trail_def trail_ok_def)

lemma grows_Literal: "grows s s1 \<Longrightarrow> Literal h e s1 = (l, s2) \<Longrightarrow> grows s s2"
  by (rule grows_trans, assumption) (simp add: grows_def same_trail_def Literal_extends Literal_trail)

lemma grows_Literal2:
  "Literal h l s = (a, s1) \<Longrightarrow> Literal h r s1 = (b, s2) \<Longrightarrow> grows s s2"
  by (rule grows_Literal [OF grows_Literal [OF grows_refl]])

lemma grows_Literal3:
  "Literal h l s = (a, s1) \<Longrightarrow> Literal h r s1 = (b, s2) \<Longrightarrow> Literal h t s2 = (c, s3) \<Longrightarrow>
     grows s s3"
  by (rule grows_Literal [OF grows_Literal2])

lemma grows_Literal_snd: "grows s (snd (Literal h e s))"
  by (cases "Literal h e s") (simp add: grows_Literal [OF grows_refl])

lemma grows_AddClause: "grows s s1 \<Longrightarrow> grows s (AddClause ps s1)"
  by (auto simp: grows_def same_trail_def extends_def AddClause_def addClause_def)

lemma grows_AddClause2: "grows s s1 \<Longrightarrow> grows s (AddClause2 p q s1)"
  by (auto simp: grows_def same_trail_def extends_def AddClause2_def addClause_def)

lemma grows_AddClause3: "grows s s1 \<Longrightarrow> grows s (AddClause3 p q r s1)"
  by (auto simp: grows_def same_trail_def extends_def AddClause3_def addClause_def)

lemma grows_Literals: "grows s s1 \<Longrightarrow> Literals h vs s1 = (ls, s2) \<Longrightarrow> grows s s2"
proof (induction vs arbitrary: s1 ls)
  case Nil
  then show ?case by simp
next
  case (Cons v vs)
  then show ?case
    by (auto split: prod.splits dest: grows_Literal)
qed

lemma grows_negated_Literals:
  "grows s s1 \<Longrightarrow> negated_Literals h vs s1 = (ls, s2) \<Longrightarrow> grows s s2"
proof (induction vs arbitrary: s1 ls)
  case Nil
  then show ?case by simp
next
  case (Cons v vs)
  then show ?case
    by (auto split: prod.splits dest: grows_Literal)
qed

lemma grows_AddBoolEq: "grows s (snd (AddBoolEq h s l r))"
  by (auto simp: grows_refl AddBoolEq_def split: prod.splits
      intro!: grows_AddClause2 intro: grows_Literal2)

lemma grows_AddBoolLe: "grows s (snd (AddBoolLe h s l r))"
  by (auto simp: grows_refl AddBoolLe_def split: prod.splits
      intro!: grows_AddClause2 intro: grows_Literal2)

lemma grows_AddBoolNot: "grows s (snd (AddBoolNot h s l r))"
  by (auto simp: grows_refl AddBoolNot_def split: prod.splits
      intro!: grows_AddClause2 intro: grows_Literal2)

lemma grows_AddBoolAndEqVar: "grows s (snd (AddBoolAndEqVar h s l r t))"
  by (auto simp: grows_refl AddBoolAndEqVar_def split: prod.splits
      intro!: grows_AddClause2 grows_AddClause3 intro: grows_Literal3)

lemma grows_AddBoolAndArrayEqVar: "grows s (snd (AddBoolAndArrayEqVar h s vs t))"
  by (simp add: AddBoolAndArrayEqVar_def grows_refl)

lemma grows_AddBoolOrArrayEqualTrue: "grows s (snd (AddBoolOrArrayEqualTrue h s vs))"
  by (auto simp: AddBoolOrArrayEqualTrue_def split: prod.splits
      intro!: grows_AddClause intro: grows_Literals grows_refl)

lemma grows_AddBoolAndArrayEqualFalse: "grows s (snd (AddBoolAndArrayEqualFalse h s vs))"
  by (auto simp: AddBoolAndArrayEqualFalse_def split: prod.splits
      intro!: grows_AddClause intro: grows_negated_Literals grows_refl)

lemma grows_subscript:
  "subscript (indices_m s) v = (i, ind) \<Longrightarrow> grows s (s\<lparr>indices_m := ind\<rparr>)"
  by (auto simp: subscript_def grows_def same_trail_def extends_def map_le_def split: option.splits)

lemma grows_Post_loop: "grows s s1 \<Longrightarrow> Post_loop vs s1 = (ds, s2) \<Longrightarrow> grows s s2"
proof (induction vs arbitrary: s1 ds)
  case Nil
  then show ?case by simp
next
  case (Cons v vs)
  then show ?case
    by (auto split: prod.splits dest!: grows_subscript intro: grows_trans)
qed

lemma grows_Post: "grows s (snd (Post s))"
  using grows_Post_loop [OF grows_refl, of "vars_m s" s] by (cases "Post s") (simp add: Post_def)

lemmas grows_calls = grows_AddBoolEq grows_AddBoolLe grows_AddBoolNot grows_AddBoolAndEqVar
  grows_AddBoolAndArrayEqVar grows_AddBoolOrArrayEqualTrue grows_AddBoolAndArrayEqualFalse
  grows_Post grows_Literal_snd

lemmas extends_calls = grows_calls [THEN grows_extends]

lemmas trail_ok_calls = grows_calls [THEN grows_trail_ok]

section \<open>The bound callback\<close>

lemma resize_within: "n \<le> length ls \<Longrightarrow> resize n ls = take n ls"
  by (simp add: resize_def)

lemma VariableBound_effect:
  assumes "VariableBound h i s = Inr (sig, s')"
  shows "\<exists>val. i < length (vars_m s) \<and> var_value h (vars_m s ! i) = Some val \<and>
     bound_literals_m s' =
       resize (rev_value (num_bound_literals_m s)) (bound_literals_m s) @ [mkLit i (val \<noteq> 0)] \<and>
     num_bound_literals_m s' = Incr (num_bound_literals_m s) \<and>
     minisat_m s' = (minisat_m s)\<lparr>assumptions := bound_literals_m s'\<rparr> \<and>
     indices_m s' = indices_m s \<and> vars_m s' = vars_m s \<and>
     sig = (if satisfiable_under (minisat_m s) (bound_literals_m s') then Proceed else Fail)"
  using assms
  by (auto simp: VariableBound_def solve_def Let_def split: if_splits option.splits)

lemma VariableBound_defined:
  "i < length (vars_m s) \<Longrightarrow> var_value h (vars_m s ! i) = Some val \<Longrightarrow>
     \<exists>sig s'. VariableBound h i s = Inr (sig, s')"
  by (simp add: VariableBound_def solve_def Let_def)

lemma VariableBound_extends: "VariableBound h i s = Inr (sig, s') \<Longrightarrow> extends s s'"
  by (drule VariableBound_effect) (auto simp: extends_def)

lemma VariableBound_trail_ok:
  assumes "VariableBound h i s = Inr (sig, s')" and "trail_ok s"
  shows "trail_ok s'"
  using VariableBound_effect [OF assms(1)] assms(2)
  by (fastforce simp: trail_ok_def Incr_def resize_within)

lemma extends_subscript:
  "subscript (indices_m s) v = (i, ind) \<Longrightarrow> extends s (s\<lparr>indices_m := ind\<rparr>)"
  by (drule grows_subscript) (rule grows_extends)

lemma trail_ok_indices: "trail_ok (s\<lparr>indices_m := ind\<rparr>) = trail_ok s"
  by (simp add: trail_ok_def)

section \<open>The lifecycle and histories\<close>

lemma InitialPropagate_loop_extends:
  "InitialPropagate_loop h vs s = Inr (sig, s') \<Longrightarrow> extends s s'"
proof (induction vs arbitrary: s)
  case Nil
  then show ?case by (simp add: extends_refl)
next
  case (Cons v vs)
  show ?case
  proof (cases "Bound h v")
    case False
    with Cons show ?thesis by simp
  next
    case True
    obtain i ind where sub: "subscript (indices_m s) v = (i, ind)"
      by (cases "subscript (indices_m s) v")
    let ?s0 = "s\<lparr>indices_m := ind\<rparr>"
    from Cons.prems True sub obtain g s1 where vb: "VariableBound h i ?s0 = Inr (g, s1)"
      by (cases "VariableBound h i ?s0") auto
    have e1: "extends s s1"
      using extends_trans [OF extends_subscript [OF sub] VariableBound_extends [OF vb]] .
    show ?thesis
    proof (cases g)
      case Fail
      with Cons.prems True sub vb have "s' = s1" by simp
      with e1 show ?thesis by simp
    next
      case Proceed
      with Cons.prems True sub vb have "InitialPropagate_loop h vs s1 = Inr (sig, s')"
        by simp
      from extends_trans [OF e1 Cons.IH [OF this]] show ?thesis .
    qed
  qed
qed

lemma InitialPropagate_loop_trail_ok:
  "InitialPropagate_loop h vs s = Inr (sig, s') \<Longrightarrow> trail_ok s \<Longrightarrow> trail_ok s'"
proof (induction vs arbitrary: s)
  case Nil
  then show ?case by simp
next
  case (Cons v vs)
  show ?case
  proof (cases "Bound h v")
    case False
    with Cons show ?thesis by simp
  next
    case True
    obtain i ind where sub: "subscript (indices_m s) v = (i, ind)"
      by (cases "subscript (indices_m s) v")
    let ?s0 = "s\<lparr>indices_m := ind\<rparr>"
    from Cons.prems True sub obtain g s1 where vb: "VariableBound h i ?s0 = Inr (g, s1)"
      by (cases "VariableBound h i ?s0") auto
    have t1: "trail_ok s1"
      using VariableBound_trail_ok [OF vb] Cons.prems(2) by (simp add: trail_ok_indices)
    show ?thesis
    proof (cases g)
      case Fail
      with Cons.prems True sub vb have "s' = s1" by simp
      with t1 show ?thesis by simp
    next
      case Proceed
      with Cons.prems True sub vb have "InitialPropagate_loop h vs s1 = Inr (sig, s')"
        by simp
      from Cons.IH [OF this t1] show ?thesis .
    qed
  qed
qed

lemma Restore_trail_ok:
  "trail_ok s \<Longrightarrow> trail_ok (s\<lparr>num_bound_literals_m := Restore (num_bound_literals_m s)\<rparr>)"
  by (auto simp: trail_ok_def Restore_def split: list.splits)

lemma Restore_extends:
  "extends s (s\<lparr>num_bound_literals_m := Restore (num_bound_literals_m s)\<rparr>)"
  by (simp add: extends_def)

lemma exec_extends: "exec h c s = Inr s' \<Longrightarrow> extends s s'"
proof (cases c)
  case Call_InitialPropagate
  assume "exec h c s = Inr s'"
  with Call_InitialPropagate obtain sig where
    "InitialPropagate_loop h (vars_m s) s = Inr (sig, s')"
    by (cases "InitialPropagate h s") (auto simp: InitialPropagate_def)
  then show ?thesis by (rule InitialPropagate_loop_extends)
next
  case (Call_VariableBound i)
  assume "exec h c s = Inr s'"
  with Call_VariableBound obtain sig where "VariableBound h i s = Inr (sig, s')"
    by (cases "VariableBound h i s") auto
  then show ?thesis by (rule VariableBound_extends)
qed (auto simp: Restore_extends extends_calls)

lemma exec_trail_ok: "exec h c s = Inr s' \<Longrightarrow> trail_ok s \<Longrightarrow> trail_ok s'"
proof (cases c)
  case Call_InitialPropagate
  assume "exec h c s = Inr s'" and t: "trail_ok s"
  with Call_InitialPropagate obtain sig where
    "InitialPropagate_loop h (vars_m s) s = Inr (sig, s')"
    by (cases "InitialPropagate h s") (auto simp: InitialPropagate_def)
  then show ?thesis using t by (rule InitialPropagate_loop_trail_ok)
next
  case (Call_VariableBound i)
  assume "exec h c s = Inr s'" and t: "trail_ok s"
  with Call_VariableBound obtain sig where "VariableBound h i s = Inr (sig, s')"
    by (cases "VariableBound h i s") auto
  then show ?thesis using t by (rule VariableBound_trail_ok)
qed (auto simp: Restore_trail_ok trail_ok_calls)

lemma run_extends: "run cs s = Inr s' \<Longrightarrow> extends s s'"
proof (induction cs arbitrary: s)
  case Nil
  then show ?case by (simp add: extends_refl)
next
  case (Cons hc cs)
  obtain h c where hc: "hc = (h, c)" by (cases hc)
  with Cons.prems obtain s1 where e: "exec h c s = Inr s1" and r: "run cs s1 = Inr s'"
    by (cases "exec h c s") auto
  from extends_trans [OF exec_extends [OF e] Cons.IH [OF r]] show ?case .
qed

lemma run_trail_ok: "run cs s = Inr s' \<Longrightarrow> trail_ok s \<Longrightarrow> trail_ok s'"
proof (induction cs arbitrary: s)
  case Nil
  then show ?case by simp
next
  case (Cons hc cs)
  obtain h c where hc: "hc = (h, c)" by (cases hc)
  with Cons.prems obtain s1 where e: "exec h c s = Inr s1" and r: "run cs s1 = Inr s'"
    by (cases "exec h c s") auto
  from Cons.IH [OF r exec_trail_ok [OF e Cons.prems(2)]] show ?case .
qed

lemma trail_ok_new: "trail_ok MakeSatPropagator"
  by (simp add: trail_ok_def MakeSatPropagator_def)

lemma empty_clause_unsat: "[] \<in> set (clauses m) \<Longrightarrow> \<not> satisfiable_under m assumps"
  by (fastforce simp: satisfiable_under_def clause_holds_def)

section \<open>The statements after the early return of \<open>AddBoolAndArrayEqVar\<close>\<close>

lemma negated_Literals_eq:
  "negated_Literals h vs s = (map neg (fst (Literals h vs s)), snd (Literals h vs s))"
  by (induction vs arbitrary: s) (simp_all split: prod.splits)

lemma Literals_clauses: "clauses (minisat_m (snd (Literals h vs s))) = clauses (minisat_m s)"
proof (induction vs arbitrary: s)
  case Nil
  then show ?case by simp
next
  case (Cons v vs)
  obtain l s1 where a: "Literal h v s = (l, s1)"
    by (cases "Literal h v s")
  with Cons [of s1] Literal_clauses [OF a] show ?case
    by (auto split: prod.splits)
qed

lemma AddClause_each_clauses:
  "clauses (minisat_m (AddClause_each t ls s)) =
     clauses (minisat_m s) @ map (\<lambda>l. [neg t, neg l]) ls"
  by (induction ls arbitrary: s) (simp_all add: AddClause2_clauses)

text \<open>
  Had they been reachable, the statements after the \<^verbatim>\<open>return false;\<close> would have added
  the clause \<open>(\<not>v\<^sub>1 \<or> \<dots> \<or> \<not>v\<^sub>n \<or> Target)\<close> and then \<open>(\<not>Target \<or> v\<^sub>i)\<close> for each \<open>i\<close>, and
  would have reached the closing brace with no value to return.
\<close>

lemma AddBoolAndArrayEqVar_after_return_clauses:
  assumes "Check_vars h vars" and "Check h target"
    and t: "Literal h target sat = (T, s1)" and v: "Literals h vars s1 = (vs, s2)"
  shows "fst (AddBoolAndArrayEqVar_after_return h sat vars target) = Falls_off_end \<and>
    clauses (minisat_m (snd (AddBoolAndArrayEqVar_after_return h sat vars target))) =
      clauses (minisat_m sat) @ [map neg vs @ [T]] @ map (\<lambda>l. [neg T, l]) vs"
proof -
  have c: "clauses (minisat_m s2) = clauses (minisat_m sat)"
    using Literals_clauses [of h vars s1] v Literal_clauses [OF t] by simp
  show ?thesis
    using assms c
    by (simp add: AddBoolAndArrayEqVar_after_return_def negated_Literals_eq
        AddClause_each_clauses AddClause_def addClause_def neg_neg comp_def)
qed

section \<open>Evaluation on concrete inputs\<close>

lemmas eval_defs = AddBoolEq_def AddBoolLe_def AddBoolNot_def AddBoolAndEqVar_def
  AddBoolAndArrayEqVar_def AddBoolOrArrayEqualTrue_def AddBoolAndArrayEqualFalse_def Check_def
  Literal_def demo_host_def MakeSatPropagator_def newVar_def minisat_new_def AddClause_def
  AddClause3_def AddClause2_def addClause_def Let_def VariableBound_def InitialPropagate_def
  Post_def subscript_def Bound_def solve_def satisfiable_under_def clause_holds_def lit_holds_def
  var_def sign_def resize_def Incr_def Restore_def mkLit_def neg_def

section \<open>The result of an encoder\<close>

text \<open>
  Claim C1 asks that every encoder report success exactly when all of its operands pass
  validation, and never a constant. \<open>AddBoolOrArrayEqualTrue\<close> and
  \<open>AddBoolAndArrayEqualFalse\<close> do not: for every host, state and list of variables they
  report failure, also when validation has passed and the clause has been added.
\<close>

theorem array_encoders_report_failure:
  "fst (AddBoolOrArrayEqualTrue h sat vars) = Return False \<and>
   fst (AddBoolAndArrayEqualFalse h sat vars) = Return False"
  by (simp add: AddBoolOrArrayEqualTrue_def AddBoolAndArrayEqualFalse_def split: prod.splits)

theorem array_encoders_report_failure_witness:
  "Check_vars demo_host [1] \<and>
   fst (AddBoolOrArrayEqualTrue demo_host MakeSatPropagator [1]) = Return False \<and>
   fst (AddBoolAndArrayEqualFalse demo_host MakeSatPropagator [1]) = Return False \<and>
   clauses (minisat_m (snd (AddBoolOrArrayEqualTrue demo_host MakeSatPropagator [1])))
     = [[mkLit 0 False]] \<and>
   clauses (minisat_m (snd (AddBoolAndArrayEqualFalse demo_host MakeSatPropagator [1])))
     = [[mkLit 0 True]]"
proof -
  have a: "Check_vars demo_host [1]"
    by (simp add: Check_def demo_host_def)
  have b: "clauses (minisat_m (snd (AddBoolOrArrayEqualTrue demo_host MakeSatPropagator [1])))
     = [[mkLit 0 False]]"
    by (simp add: eval_defs)
  have c: "clauses (minisat_m (snd (AddBoolAndArrayEqualFalse demo_host MakeSatPropagator [1])))
     = [[mkLit 0 True]]"
    by (simp add: eval_defs)
  from array_encoders_report_failure [of demo_host MakeSatPropagator "[1]"] a b c
  show ?thesis by simp
qed

text \<open>
  Claim C4 asks that \<open>AddBoolAndArrayEqVar\<close>, given valid variables and a valid target,
  add the clauses of the conjunction and report success. It does neither: for every input
  it returns false at once and leaves the propagator as it was.
\<close>

theorem AddBoolAndArrayEqVar_returns_at_once:
  "AddBoolAndArrayEqVar h sat vars target = (Return False, sat)"
  by (simp add: AddBoolAndArrayEqVar_def)

theorem AddBoolAndArrayEqVar_returns_at_once_witness:
  "Check_vars demo_host [1, 2] \<and> Check demo_host 3 \<and>
   AddBoolAndArrayEqVar demo_host MakeSatPropagator [1, 2] 3 = (Return False, MakeSatPropagator) \<and>
   clauses (minisat_m (snd (AddBoolAndArrayEqVar demo_host MakeSatPropagator [1, 2] 3))) = []"
proof -
  have a: "Check_vars demo_host [1, 2]" and b: "Check demo_host 3"
    by (simp_all add: Check_def demo_host_def)
  have c: "clauses (minisat_m MakeSatPropagator) = []"
    by (simp add: MakeSatPropagator_def minisat_new_def)
  from AddBoolAndArrayEqVar_returns_at_once [of demo_host MakeSatPropagator "[1, 2]" 3] a b c
  show ?thesis by simp
qed

text \<open>
  Claim C8 asks that every path of every encoder end in an explicit boolean result. The
  success path of \<open>AddBoolAndEqVar\<close> does not: when the three operands pass validation,
  the function adds its clauses and reaches its end without a return statement.
\<close>

theorem AddBoolAndEqVar_falls_off_end:
  assumes "Check h left" and "Check h right" and "Check h target"
  shows "fst (AddBoolAndEqVar h sat left right target) = Falls_off_end"
  using assms by (simp add: AddBoolAndEqVar_def split: prod.splits)

theorem AddBoolAndEqVar_falls_off_end_witness:
  "Check demo_host 1 \<and> Check demo_host 2 \<and> Check demo_host 3 \<and>
   fst (AddBoolAndEqVar demo_host MakeSatPropagator 1 2 3) = Falls_off_end \<and>
   clauses (minisat_m (snd (AddBoolAndEqVar demo_host MakeSatPropagator 1 2 3))) =
     [[mkLit 0 True, mkLit 1 True, mkLit 2 False], [mkLit 0 False, mkLit 2 True],
      [mkLit 1 False, mkLit 2 True]]"
proof -
  have a: "Check demo_host 1" and b: "Check demo_host 2" and c: "Check demo_host 3"
    by (simp_all add: Check_def demo_host_def)
  have d: "clauses (minisat_m (snd (AddBoolAndEqVar demo_host MakeSatPropagator 1 2 3))) =
     [[mkLit 0 True, mkLit 1 True, mkLit 2 False], [mkLit 0 False, mkLit 2 True],
      [mkLit 1 False, mkLit 2 True]]"
    by (simp add: eval_defs)
  from AddBoolAndEqVar_falls_off_end [OF a b c, of MakeSatPropagator] a b c d
  show ?thesis by simp
qed

text \<open>
  Claim C7. Whenever an operand of an encoder fails validation, the encoder returns false
  and the propagator it returns is the one it was given: no clause added, no engine
  variable allocated, registry and trail untouched. Validation itself, \<open>Check\<close> and
  \<open>Check_vars\<close>, reads the host only and has no propagator to change.
\<close>

theorem validation_failure_changes_nothing:
  "(\<not> Check h left \<or> \<not> Check h right \<longrightarrow>
      AddBoolEq h sat left right = (Return False, sat) \<and>
      AddBoolLe h sat left right = (Return False, sat) \<and>
      AddBoolNot h sat left right = (Return False, sat)) \<and>
   (\<not> Check_vars h vars \<or> \<not> Check h target \<longrightarrow>
      AddBoolAndArrayEqVar h sat vars target = (Return False, sat)) \<and>
   (\<not> Check h left \<or> \<not> Check h right \<or> \<not> Check h target \<longrightarrow>
      AddBoolAndEqVar h sat left right target = (Return False, sat)) \<and>
   (\<not> Check_vars h vars \<longrightarrow>
      AddBoolOrArrayEqualTrue h sat vars = (Return False, sat) \<and>
      AddBoolAndArrayEqualFalse h sat vars = (Return False, sat))"
  by (simp add: AddBoolEq_def AddBoolLe_def AddBoolNot_def AddBoolAndArrayEqVar_def
      AddBoolAndEqVar_def AddBoolOrArrayEqualTrue_def AddBoolAndArrayEqualFalse_def)

theorem validation_failure_changes_nothing_witness:
  "\<not> Check demo_host 25 \<and> \<not> Check_vars demo_host [1, 25] \<and>
   AddBoolEq demo_host MakeSatPropagator 25 1 = (Return False, MakeSatPropagator) \<and>
   AddBoolLe demo_host MakeSatPropagator 25 1 = (Return False, MakeSatPropagator) \<and>
   AddBoolNot demo_host MakeSatPropagator 25 1 = (Return False, MakeSatPropagator) \<and>
   AddBoolAndArrayEqVar demo_host MakeSatPropagator [1, 25] 2 = (Return False, MakeSatPropagator) \<and>
   AddBoolAndEqVar demo_host MakeSatPropagator 25 1 2 = (Return False, MakeSatPropagator) \<and>
   AddBoolOrArrayEqualTrue demo_host MakeSatPropagator [1, 25] = (Return False, MakeSatPropagator) \<and>
   AddBoolAndArrayEqualFalse demo_host MakeSatPropagator [1, 25] = (Return False, MakeSatPropagator)"
proof -
  have a: "\<not> Check demo_host 25"
    by (simp add: Check_def demo_host_def)
  have b: "\<not> Check_vars demo_host [1, 25]"
    by (simp add: Check_def demo_host_def)
  from validation_failure_changes_nothing [of demo_host 25 1 MakeSatPropagator "[1, 25]" 2]
  show ?thesis using a b by blast
qed

section \<open>The clauses of the binary encoders\<close>

text \<open>
  Claim C5. For valid boolean operands, with \<open>L\<close> and \<open>R\<close> the literals of the left and
  the right operand (the index the registry holds for the operand's variable, with the
  operand's negation flag), \<open>AddBoolEq\<close> appends exactly the clauses \<open>(\<not>L \<or> R)\<close> and
  \<open>(L \<or> \<not>R)\<close> to the clause database, \<open>AddBoolLe\<close> exactly \<open>(\<not>L \<or> R)\<close>, and
  \<open>AddBoolNot\<close> exactly \<open>(\<not>L \<or> \<not>R)\<close> and \<open>(L \<or> R)\<close>; each returns true.
\<close>

theorem binary_encoders_clauses:
  assumes l: "IsBooleanVar h left = Some (lv, ln)" and r: "IsBooleanVar h right = Some (rv, rn)"
  shows "\<exists>i j L R. indices_m (snd (AddBoolEq h sat left right)) lv = Some i
           \<and> indices_m (snd (AddBoolEq h sat left right)) rv = Some j
           \<and> indices_m (snd (AddBoolLe h sat left right)) lv = Some i
           \<and> indices_m (snd (AddBoolLe h sat left right)) rv = Some j
           \<and> indices_m (snd (AddBoolNot h sat left right)) lv = Some i
           \<and> indices_m (snd (AddBoolNot h sat left right)) rv = Some j
           \<and> L = mkLit i ln \<and> R = mkLit j rn
           \<and> fst (AddBoolEq h sat left right) = Return True
           \<and> clauses (minisat_m (snd (AddBoolEq h sat left right)))
                = clauses (minisat_m sat) @ [[neg L, R], [L, neg R]]
           \<and> fst (AddBoolLe h sat left right) = Return True
           \<and> clauses (minisat_m (snd (AddBoolLe h sat left right)))
                = clauses (minisat_m sat) @ [[neg L, R]]
           \<and> fst (AddBoolNot h sat left right) = Return True
           \<and> clauses (minisat_m (snd (AddBoolNot h sat left right)))
                = clauses (minisat_m sat) @ [[neg L, neg R], [L, R]]"
proof -
  obtain L s1 where a: "Literal h left sat = (L, s1)"
    by (cases "Literal h left sat")
  obtain R s2 where b: "Literal h right s1 = (R, s2)"
    by (cases "Literal h right s1")
  from two_Literals [OF l r a b] obtain i j where
    ij: "indices_m s2 lv = Some i" "indices_m s2 rv = Some j" "L = mkLit i ln" "R = mkLit j rn"
    and c: "clauses (minisat_m s2) = clauses (minisat_m sat)"
    by blast
  have chk: "Check h left" "Check h right"
    using l r by (simp_all add: Check_def)
  have eq: "AddBoolEq h sat left right =
      (Return True, AddClause2 L (neg R) (AddClause2 (neg L) R s2))"
    using chk a b by (simp add: AddBoolEq_def)
  have le: "AddBoolLe h sat left right = (Return True, AddClause2 (neg L) R s2)"
    using chk a b by (simp add: AddBoolLe_def)
  have nt: "AddBoolNot h sat left right =
      (Return True, AddClause2 L R (AddClause2 (neg L) (neg R) s2))"
    using chk a b by (simp add: AddBoolNot_def)
  show ?thesis
    apply (rule exI [of _ i], rule exI [of _ j], rule exI [of _ L], rule exI [of _ R])
    using ij c by (simp add: eq le nt AddClause2_clauses AddClause2_indices)
qed

theorem binary_encoders_clauses_witness:
  "IsBooleanVar demo_host 1 = Some (1, False) \<and> IsBooleanVar demo_host 12 = Some (2, True) \<and>
   (\<exists>i j L R. indices_m (snd (AddBoolEq demo_host MakeSatPropagator 1 12)) 1 = Some i
           \<and> indices_m (snd (AddBoolEq demo_host MakeSatPropagator 1 12)) 2 = Some j
           \<and> L = mkLit i False \<and> R = mkLit j True
           \<and> fst (AddBoolEq demo_host MakeSatPropagator 1 12) = Return True
           \<and> clauses (minisat_m (snd (AddBoolEq demo_host MakeSatPropagator 1 12)))
                = clauses (minisat_m MakeSatPropagator) @ [[neg L, R], [L, neg R]]
           \<and> fst (AddBoolLe demo_host MakeSatPropagator 1 12) = Return True
           \<and> clauses (minisat_m (snd (AddBoolLe demo_host MakeSatPropagator 1 12)))
                = clauses (minisat_m MakeSatPropagator) @ [[neg L, R]]
           \<and> fst (AddBoolNot demo_host MakeSatPropagator 1 12) = Return True
           \<and> clauses (minisat_m (snd (AddBoolNot demo_host MakeSatPropagator 1 12)))
                = clauses (minisat_m MakeSatPropagator) @ [[neg L, neg R], [L, R]])"
proof -
  have l: "IsBooleanVar demo_host 1 = Some (1, False)"
    by (simp add: demo_host_def)
  have r: "IsBooleanVar demo_host 12 = Some (2, True)"
    by (simp add: demo_host_def)
  from binary_encoders_clauses [OF l r, of MakeSatPropagator] show ?thesis
    using l r by blast
qed

section \<open>The registry over a history\<close>

text \<open>
  Claim C9. Over any history of events, backtracking included, the registry only grows:
  every entry of the earlier registry is in the later one with the same engine variable,
  none removed and none remapped. An entry is created at the first reference: after
  \<open>Literal\<close> on a boolean expression the registry holds its variable, and a variable
  that was not known is given the engine variable allocated for it.
\<close>

theorem registry_only_grows:
  "(run history s = Inr s' \<longrightarrow> indices_m s \<subseteq>\<^sub>m indices_m s') \<and>
   (IsBooleanVar h e = Some (v, n) \<longrightarrow>
      indices_m (snd (Literal h e s)) v \<noteq> None \<and>
      (indices_m s v = None \<longrightarrow> indices_m (snd (Literal h e s)) v = Some (nVars (minisat_m s))))"
proof (intro conjI impI)
  assume "run history s = Inr s'"
  from run_extends [OF this] show "indices_m s \<subseteq>\<^sub>m indices_m s'"
    by (simp add: extends_def)
next
  assume "IsBooleanVar h e = Some (v, n)"
  then show "indices_m (snd (Literal h e s)) v \<noteq> None"
    by (auto simp: Literal_def newVar_def split: option.splits)
next
  assume "IsBooleanVar h e = Some (v, n)" and "indices_m s v = None"
  then show "indices_m (snd (Literal h e s)) v = Some (nVars (minisat_m s))"
    by (simp add: Literal_def newVar_def)
qed

theorem registry_only_grows_witness:
  "\<exists>s'. run [(demo_host, Call_AddBoolEq 1 12), (demo_host, Call_Post),
            (demo_host, Call_InitialPropagate), (demo_host, Host_backtrack),
            (demo_host, Call_Literal 3)] (snd (Literal demo_host 4 MakeSatPropagator)) = Inr s' \<and>
     indices_m (snd (Literal demo_host 4 MakeSatPropagator)) \<subseteq>\<^sub>m indices_m s' \<and>
     IsBooleanVar demo_host 4 = Some (4, False) \<and>
     indices_m MakeSatPropagator 4 = None \<and>
     indices_m (snd (Literal demo_host 4 MakeSatPropagator)) 4 = Some 0 \<and>
     indices_m s' 4 = Some 0"
proof -
  let ?s = "snd (Literal demo_host 4 MakeSatPropagator)"
  let ?hist = "[(demo_host, Call_AddBoolEq 1 12), (demo_host, Call_Post),
            (demo_host, Call_InitialPropagate), (demo_host, Host_backtrack),
            (demo_host, Call_Literal 3)]"
  have "\<exists>s'. run ?hist ?s = Inr s'"
    by (simp add: eval_defs)
  then obtain s' where r: "run ?hist ?s = Inr s'" ..
  have b: "IsBooleanVar demo_host 4 = Some (4, False)"
    by (simp add: demo_host_def)
  have n: "indices_m MakeSatPropagator 4 = None"
    by (simp add: MakeSatPropagator_def)
  have z: "nVars (minisat_m MakeSatPropagator) = 0"
    by (simp add: MakeSatPropagator_def minisat_new_def)
  from registry_only_grows [of ?hist ?s s' demo_host 4 4 False] r
  have le: "indices_m ?s \<subseteq>\<^sub>m indices_m s'"
    by blast
  from registry_only_grows [of "[]" MakeSatPropagator MakeSatPropagator demo_host 4 4 False] b n z
  have i: "indices_m ?s 4 = Some 0"
    by simp
  with le have "indices_m s' 4 = Some 0"
    by (metis domI map_le_def)
  with r le b n i show ?thesis by blast
qed

text \<open>
  Claim C6. Let an expression refer to the boolean variable \<open>v\<close> and let \<open>Literal\<close>
  return \<open>l\<close> for it. After any history, \<open>Literal\<close> on any expression that refers to \<open>v\<close>
  returns a literal over the engine variable of \<open>l\<close> and changes nothing; the first call
  allocates one engine variable at most; a reference with the same negation flag gets
  \<open>l\<close> again and a reference with the other flag gets the complement of \<open>l\<close>.
\<close>

theorem Literal_same_variable:
  assumes "IsBooleanVar h e = Some (v, n)" and "Literal h e s = (l, s1)"
    and "run history s1 = Inr s2"
    and "IsBooleanVar h' e' = Some (v, n')" and "Literal h' e' s2 = (l', s3)"
  shows "var l' = var l \<and> s3 = s2 \<and> nVars (minisat_m s1) \<le> Suc (nVars (minisat_m s)) \<and>
         (n' = n \<longrightarrow> l' = l) \<and> (n' \<noteq> n \<longrightarrow> l' = neg l)"
proof -
  from Literal_valid [OF assms(1,2)] obtain i where i: "indices_m s1 v = Some i" "l = mkLit i n"
    by blast
  from run_extends [OF assms(3)] have "indices_m s1 \<subseteq>\<^sub>m indices_m s2"
    by (simp add: extends_def)
  with i have "indices_m s2 v = Some i"
    by (metis domI map_le_def)
  from Literal_known [OF assms(4) this] assms(5) have l': "l' = mkLit i n'" and s3: "s3 = s2"
    by simp_all
  have "n' \<noteq> n \<Longrightarrow> n' = (\<not> n)"
    by blast
  with i l' s3 Literal_nVars [OF assms(2)] show ?thesis
    by (auto simp: var_mkLit neg_mkLit)
qed

theorem Literal_same_variable_witness:
  "\<exists>l s1 s2 l' s3. IsBooleanVar demo_host 4 = Some (4, False) \<and>
     Literal demo_host 4 MakeSatPropagator = (l, s1) \<and>
     run [(demo_host, Call_AddBoolEq 1 12), (demo_host, Call_InitialPropagate),
          (demo_host, Host_backtrack)] s1 = Inr s2 \<and>
     IsBooleanVar demo_host 14 = Some (4, True) \<and>
     Literal demo_host 14 s2 = (l', s3) \<and>
     var l' = var l \<and> s3 = s2 \<and> l' = neg l"
proof -
  let ?hist = "[(demo_host, Call_AddBoolEq 1 12), (demo_host, Call_InitialPropagate),
          (demo_host, Host_backtrack)]"
  obtain l s1 where a: "Literal demo_host 4 MakeSatPropagator = (l, s1)"
    by (cases "Literal demo_host 4 MakeSatPropagator")
  have "\<exists>s2. run ?hist (snd (Literal demo_host 4 MakeSatPropagator)) = Inr s2"
    by (simp add: eval_defs)
  with a obtain s2 where r: "run ?hist s1 = Inr s2"
    by auto
  obtain l' s3 where b: "Literal demo_host 14 s2 = (l', s3)"
    by (cases "Literal demo_host 14 s2")
  have p: "IsBooleanVar demo_host 4 = Some (4, False)"
    by (simp add: demo_host_def)
  have q: "IsBooleanVar demo_host 14 = Some (4, True)"
    by (simp add: demo_host_def)
  from Literal_same_variable [OF p a r q b] p a r q b show ?thesis by blast
qed

section \<open>The empty vector\<close>

text \<open>
  Claim C10. \<open>Check_vars\<close> accepts the empty list. \<open>AddBoolOrArrayEqualTrue\<close> and
  \<open>AddBoolAndArrayEqualFalse\<close> on the empty list append the empty clause to the clause
  database. From then on, after any history, the empty clause is in the database and the
  engine answers unsatisfiable under every list of assumptions.
\<close>

theorem empty_vector_adds_empty_clause:
  "Check_vars h [] \<and>
   clauses (minisat_m (snd (AddBoolOrArrayEqualTrue h sat []))) = clauses (minisat_m sat) @ [[]] \<and>
   clauses (minisat_m (snd (AddBoolAndArrayEqualFalse h sat []))) = clauses (minisat_m sat) @ [[]] \<and>
   ((s1 = snd (AddBoolOrArrayEqualTrue h sat []) \<or> s1 = snd (AddBoolAndArrayEqualFalse h sat [])) \<and>
    run history s1 = Inr s2 \<longrightarrow>
      [] \<in> set (clauses (minisat_m s2)) \<and> \<not> satisfiable_under (minisat_m s2) assumps \<and>
      \<not> fst (solve (minisat_m s2) assumps))"
proof -
  have a: "clauses (minisat_m (snd (AddBoolOrArrayEqualTrue h sat []))) =
      clauses (minisat_m sat) @ [[]]"
    by (simp add: AddBoolOrArrayEqualTrue_def AddClause_def addClause_def)
  have b: "clauses (minisat_m (snd (AddBoolAndArrayEqualFalse h sat []))) =
      clauses (minisat_m sat) @ [[]]"
    by (simp add: AddBoolAndArrayEqualFalse_def AddClause_def addClause_def)
  have c: "[] \<in> set (clauses (minisat_m s2)) \<and> \<not> satisfiable_under (minisat_m s2) assumps \<and>
      \<not> fst (solve (minisat_m s2) assumps)"
    if s1: "s1 = snd (AddBoolOrArrayEqualTrue h sat []) \<or>
        s1 = snd (AddBoolAndArrayEqualFalse h sat [])"
      and r: "run history s1 = Inr s2"
  proof -
    from s1 a b have "[] \<in> set (clauses (minisat_m s1))"
      by auto
    moreover from run_extends [OF r] obtain cs where
      "clauses (minisat_m s2) = clauses (minisat_m s1) @ cs"
      by (auto simp: extends_def)
    ultimately have e: "[] \<in> set (clauses (minisat_m s2))"
      by simp
    from empty_clause_unsat [OF e] e show ?thesis
      by (simp add: solve_def)
  qed
  from a b c show ?thesis by simp
qed

theorem empty_vector_adds_empty_clause_witness:
  "\<exists>s2. run [(demo_host, Call_AddBoolEq 1 12), (demo_host, Call_InitialPropagate)]
          (snd (AddBoolOrArrayEqualTrue demo_host MakeSatPropagator [])) = Inr s2 \<and>
     [] \<in> set (clauses (minisat_m s2)) \<and> \<not> fst (solve (minisat_m s2) [])"
proof -
  let ?hist = "[(demo_host, Call_AddBoolEq 1 12), (demo_host, Call_InitialPropagate)]"
  let ?s1 = "snd (AddBoolOrArrayEqualTrue demo_host MakeSatPropagator [])"
  have "\<exists>s2. run ?hist ?s1 = Inr s2"
    by (simp add: eval_defs)
  then obtain s2 where r: "run ?hist ?s1 = Inr s2" ..
  from empty_vector_adds_empty_clause [of demo_host MakeSatPropagator ?s1 ?hist s2 "[]"] r
  show ?thesis by blast
qed

section \<open>The trail\<close>

text \<open>
  Claim C2 asks that the bound callback append the stored literal asserted when the
  variable is bound true and negated when it is bound false. \<open>VariableBound\<close> on a
  registered variable does cut the trail to the counter, advance the counter by one,
  append one literal, solve under the whole trail, and signal failure exactly on an
  unsatisfiable answer; but the literal has the polarity reversed. With \<open>l\<close> what
  \<open>Literal\<close> returns for the variable itself, the callback appends the complement of \<open>l\<close>
  when the value is not zero and \<open>l\<close> when the value is zero.
\<close>

theorem VariableBound_polarity:
  assumes "VariableBound h i s = Inr (sig, s')"
    and "vars_m s ! i = v" and "indices_m s v = Some i" and "IsBooleanVar h e = Some (v, False)"
  shows "\<exists>val. var_value h v = Some val \<and>
     bound_literals_m s' =
       resize (rev_value (num_bound_literals_m s)) (bound_literals_m s) @
         [if val \<noteq> 0 then neg (fst (Literal h e s)) else fst (Literal h e s)] \<and>
     num_bound_literals_m s' = Incr (num_bound_literals_m s) \<and>
     assumptions (minisat_m s') = bound_literals_m s' \<and>
     sig = (if satisfiable_under (minisat_m s) (bound_literals_m s') then Proceed else Fail)"
proof -
  from VariableBound_effect [OF assms(1)] assms(2) obtain val where
    v: "var_value h v = Some val"
    and b: "bound_literals_m s' =
       resize (rev_value (num_bound_literals_m s)) (bound_literals_m s) @ [mkLit i (val \<noteq> 0)]"
    and c: "num_bound_literals_m s' = Incr (num_bound_literals_m s)"
      "minisat_m s' = (minisat_m s)\<lparr>assumptions := bound_literals_m s'\<rparr>"
      "sig = (if satisfiable_under (minisat_m s) (bound_literals_m s') then Proceed else Fail)"
    by auto
  from Literal_known [OF assms(4,3)] have "fst (Literal h e s) = mkLit i False"
    by simp
  with v b c show ?thesis
    by (auto simp: neg_mkLit)
qed

text \<open>
  The variable \<open>1\<close> is bound to \<open>1\<close> and the literal appended for it is the complement
  of its own. With \<open>2 \<le> 1\<close> encoded, the values \<open>0\<close> for \<open>2\<close> and \<open>1\<close> for \<open>1\<close> satisfy
  the relation and the callback fails the branch; with \<open>1 \<le> 2\<close> encoded, the same values
  violate the relation and the callback lets the branch go on.
\<close>

theorem VariableBound_polarity_witness:
  "\<exists>sig s'. VariableBound demo_host 0 (snd (Literal demo_host 1 MakeSatPropagator)) = Inr (sig, s') \<and>
     vars_m (snd (Literal demo_host 1 MakeSatPropagator)) ! 0 = 1 \<and>
     indices_m (snd (Literal demo_host 1 MakeSatPropagator)) 1 = Some 0 \<and>
     IsBooleanVar demo_host 1 = Some (1, False) \<and>
     var_value demo_host 1 = Some 1 \<and>
     fst (Literal demo_host 1 MakeSatPropagator) = mkLit 0 False \<and>
     bound_literals_m s' = [neg (mkLit 0 False)] \<and>
     var_value demo_host 2 = Some 0 \<and>
     map_sum id fst (InitialPropagate demo_host (snd (AddBoolLe demo_host MakeSatPropagator 2 1)))
       = Inr Fail \<and>
     map_sum id fst (InitialPropagate demo_host (snd (AddBoolLe demo_host MakeSatPropagator 1 2)))
       = Inr Proceed"
proof -
  let ?s = "snd (Literal demo_host 1 MakeSatPropagator)"
  have "\<exists>sig s'. VariableBound demo_host 0 ?s = Inr (sig, s')"
    by (simp add: eval_defs)
  then obtain sig s' where vb: "VariableBound demo_host 0 ?s = Inr (sig, s')"
    by blast
  have a: "vars_m ?s ! 0 = 1" and b: "indices_m ?s 1 = Some 0"
    and c: "IsBooleanVar demo_host 1 = Some (1, False)" and d: "var_value demo_host 1 = Some 1"
    and e: "fst (Literal demo_host 1 MakeSatPropagator) = mkLit 0 False"
    and f: "fst (Literal demo_host 1 ?s) = mkLit 0 False"
    and g: "resize (rev_value (num_bound_literals_m ?s)) (bound_literals_m ?s) = []"
    by (simp_all add: eval_defs)
  from VariableBound_polarity [OF vb a b c] d f g
  have h: "bound_literals_m s' = [neg (mkLit 0 False)]"
    by simp
  have i: "var_value demo_host 2 = Some 0"
    by (simp add: demo_host_def)
  have j: "map_sum id fst
      (InitialPropagate demo_host (snd (AddBoolLe demo_host MakeSatPropagator 2 1))) = Inr Fail"
    by (simp add: eval_defs)
  have k: "map_sum id fst
      (InitialPropagate demo_host (snd (AddBoolLe demo_host MakeSatPropagator 1 2))) = Inr Proceed"
    by (simp add: eval_defs)
  from vb a b c d e h i j k show ?thesis by blast
qed

text \<open>
  Claim C3. In every state a history leads to from a new propagator, the counter does
  not exceed the number of stored literals, so the logical trail is the prefix of that
  length. Every call of \<open>VariableBound\<close> hands the engine exactly that prefix followed by
  the new literal, a list as long as the counter after the call. Hence, when \<open>A\<close> is
  bound, the host backtracks past that write, and another variable \<open>B\<close> is bound, the
  literal of \<open>A\<close>, which was among the assumptions for \<open>A\<close>, is not among the assumptions
  for \<open>B\<close>, provided it was not on the trail before \<open>A\<close> was bound.
\<close>

theorem trail_length_is_counter:
  assumes "run history MakeSatPropagator = Inr s"
  shows "rev_value (num_bound_literals_m s) \<le> length (bound_literals_m s) \<and>
    (VariableBound h i s = Inr (sig, s') \<longrightarrow>
       assumptions (minisat_m s') = bound_literals_m s' \<and>
       bound_literals_m s' =
         take (rev_value (num_bound_literals_m s)) (bound_literals_m s) @
           [last (bound_literals_m s')] \<and>
       length (assumptions (minisat_m s')) = rev_value (num_bound_literals_m s')) \<and>
    (VariableBound hA iA s = Inr (sigA, sA) \<and> exec hX Host_backtrack sA = Inr sA' \<and>
     VariableBound hB iB sA' = Inr (sigB, sB) \<and> iA \<noteq> iB \<and>
     last (bound_literals_m sA) \<notin>
       set (take (rev_value (num_bound_literals_m s)) (bound_literals_m s)) \<longrightarrow>
       rev_value (num_bound_literals_m sA') = rev_value (num_bound_literals_m s) \<and>
       last (bound_literals_m sA) \<in> set (assumptions (minisat_m sA)) \<and>
       last (bound_literals_m sA) \<notin> set (assumptions (minisat_m sB)) \<and>
       assumptions (minisat_m sB) =
         take (rev_value (num_bound_literals_m s)) (bound_literals_m s) @
           [last (bound_literals_m sB)])"
proof -
  let ?k = "rev_value (num_bound_literals_m s)"
  from run_trail_ok [OF assms trail_ok_new] have ok: "trail_ok s" .
  then have k: "?k \<le> length (bound_literals_m s)"
    by (simp add: trail_ok_def)
  have step: "assumptions (minisat_m t') = bound_literals_m t' \<and>
       (\<exists>b. bound_literals_m t' =
         take (rev_value (num_bound_literals_m t)) (bound_literals_m t) @ [mkLit j b]) \<and>
       num_bound_literals_m t' = Incr (num_bound_literals_m t)"
    if "VariableBound g j t = Inr (sg, t')"
      and "rev_value (num_bound_literals_m t) \<le> length (bound_literals_m t)"
    for g j t sg t'
    using VariableBound_effect [OF that(1)] that(2) by (fastforce simp: resize_within)
  have one: "assumptions (minisat_m s') = bound_literals_m s' \<and>
       bound_literals_m s' = take ?k (bound_literals_m s) @ [last (bound_literals_m s')] \<and>
       length (assumptions (minisat_m s')) = rev_value (num_bound_literals_m s')"
    if vb: "VariableBound h i s = Inr (sig, s')"
    using step [OF vb k] k by (auto simp: Incr_def)
  have two: "rev_value (num_bound_literals_m sA') = ?k \<and>
       last (bound_literals_m sA) \<in> set (assumptions (minisat_m sA)) \<and>
       last (bound_literals_m sA) \<notin> set (assumptions (minisat_m sB)) \<and>
       assumptions (minisat_m sB) = take ?k (bound_literals_m s) @ [last (bound_literals_m sB)]"
    if a: "VariableBound hA iA s = Inr (sigA, sA)" and bt: "exec hX Host_backtrack sA = Inr sA'"
      and b: "VariableBound hB iB sA' = Inr (sigB, sB)" and ne: "iA \<noteq> iB"
      and fresh: "last (bound_literals_m sA) \<notin> set (take ?k (bound_literals_m s))"
  proof -
    from step [OF a k] obtain va where
      A: "assumptions (minisat_m sA) = bound_literals_m sA"
        "bound_literals_m sA = take ?k (bound_literals_m s) @ [mkLit iA va]"
        "num_bound_literals_m sA = Incr (num_bound_literals_m s)"
      by blast
    from bt have A': "bound_literals_m sA' = bound_literals_m sA"
      "num_bound_literals_m sA' = Restore (num_bound_literals_m sA)"
      by auto
    with A have kA': "rev_value (num_bound_literals_m sA') = ?k"
      by (simp add: Restore_def Incr_def)
    with A' A k have "rev_value (num_bound_literals_m sA') \<le> length (bound_literals_m sA')"
      by simp
    from step [OF b this] obtain vb where
      B: "assumptions (minisat_m sB) = bound_literals_m sB"
        "bound_literals_m sB = take ?k (bound_literals_m sA) @ [mkLit iB vb]"
      using kA' A' by auto
    from B A k have eq: "bound_literals_m sB = take ?k (bound_literals_m s) @ [mkLit iB vb]"
      by simp
    from A have la: "last (bound_literals_m sA) = mkLit iA va"
      by simp
    from eq la fresh ne have "last (bound_literals_m sA) \<notin> set (bound_literals_m sB)"
      by (simp add: mkLit_eq_iff)
    with A B eq kA' show ?thesis
      by simp
  qed
  from k one two show ?thesis by blast
qed

theorem trail_length_is_counter_witness:
  "\<exists>s sigA sA sA' sigB sB.
     run [(demo_host, Call_AddBoolLe 1 2)] MakeSatPropagator = Inr s \<and>
     VariableBound demo_host 0 s = Inr (sigA, sA) \<and>
     exec demo_host Host_backtrack sA = Inr sA' \<and>
     VariableBound demo_host 1 sA' = Inr (sigB, sB) \<and> (0::nat) \<noteq> 1 \<and>
     last (bound_literals_m sA) \<notin>
       set (take (rev_value (num_bound_literals_m s)) (bound_literals_m s)) \<and>
     rev_value (num_bound_literals_m s) \<le> length (bound_literals_m s) \<and>
     length (assumptions (minisat_m sA)) = rev_value (num_bound_literals_m sA) \<and>
     last (bound_literals_m sA) \<in> set (assumptions (minisat_m sA)) \<and>
     last (bound_literals_m sA) \<notin> set (assumptions (minisat_m sB))"
proof -
  define s where "s = snd (AddBoolLe demo_host MakeSatPropagator 1 2)"
  have r: "run [(demo_host, Call_AddBoolLe 1 2)] MakeSatPropagator = Inr s"
    by (simp add: s_def)
  have vs: "vars_m s = [1, 2]" and bl: "bound_literals_m s = []"
    by (simp_all add: s_def eval_defs)
  have v1: "var_value demo_host 1 = Some 1" and v2: "var_value demo_host 2 = Some 0"
    by (simp_all add: demo_host_def)
  from VariableBound_defined [of 0 s demo_host 1] vs v1
  obtain sigA sA where a: "VariableBound demo_host 0 s = Inr (sigA, sA)"
    by auto
  define sA' where "sA' = sA\<lparr>num_bound_literals_m := Restore (num_bound_literals_m sA)\<rparr>"
  have bt: "exec demo_host Host_backtrack sA = Inr sA'"
    by (simp add: sA'_def)
  from VariableBound_effect [OF a] have "vars_m sA' = [1, 2]"
    by (auto simp: sA'_def vs)
  with VariableBound_defined [of 1 sA' demo_host 0] v2
  obtain sigB sB where b: "VariableBound demo_host 1 sA' = Inr (sigB, sB)"
    by auto
  have fresh: "last (bound_literals_m sA) \<notin>
      set (take (rev_value (num_bound_literals_m s)) (bound_literals_m s))"
    by (simp add: bl)
  have ne: "(0::nat) \<noteq> 1"
    by simp
  from trail_length_is_counter [OF r, of demo_host 0 sigA sA demo_host 0 sigA sA demo_host sA'
      demo_host 1 sigB sB] a bt b fresh ne
  have "rev_value (num_bound_literals_m s) \<le> length (bound_literals_m s) \<and>
     length (assumptions (minisat_m sA)) = rev_value (num_bound_literals_m sA) \<and>
     last (bound_literals_m sA) \<in> set (assumptions (minisat_m sA)) \<and>
     last (bound_literals_m sA) \<notin> set (assumptions (minisat_m sB))"
    by blast
  with r a bt b fresh ne show ?thesis by blast
qed

end
